theory Spec2Isabelle
  imports Main "HOL-Library.Word" "HOL-Library.Signed_Division"
begin

unbundle bit_operations_syntax

section \<open>Data model of io.go\<close>

type_synonym byte = "8 word"
type_synonym uint16 = "16 word"
type_synonym uint32 = "32 word"
type_synonym int32 = "32 word"

text \<open>
  The struct \<open>FileHeader\<close>. Go's \<open>int32\<close> is a 32-bit word read as two's
  complement (\<open>sint\<close>); the conversions \<open>int32(u)\<close> and \<open>uint32(i)\<close> keep the
  bits, so they are the identity on the word.
\<close>

record FileHeader =
  MagicNumber :: uint32
  VersionMajor :: uint16
  VersionMinor :: uint16
  TimeZone :: int32
  SigFigs :: uint32
  SnapLen :: uint32
  LinkType :: uint32

text \<open>
  Values of Go's \<open>error\<close> interface that an \<open>io.Reader\<close> or \<open>io.Writer\<close> can
  hand back: the sentinel \<open>io.EOF\<close>, or any other failure (numbered).
\<close>

datatype io_error = EOF | IOFailure nat

text \<open>The error \<open>NewReader\<close> builds with \<open>fmt.Errorf\<close>, carrying the magic it saw.\<close>

datatype error = BadMagic uint32

text \<open>
  \<open>time.Time\<close> as the instant its two accessors report: \<open>t.Unix()\<close> (seconds since
  the epoch, an \<open>int64\<close>) and \<open>t.Nanosecond()\<close> (the offset within the second).
\<close>

record Time =
  Unix :: int
  Nanosecond :: int

text \<open>
  Modelled from the spec: the struct \<open>Packet\<close>, whose declaration is not in io.go.
  The spec's PacketRecord has a timestamp, a captured length, an original length, a
  payload buffer and a handle to the pool; io.go assigns them as \<open>Time\<close>,
  \<open>Caplen\<close>, \<open>Len\<close>, \<open>Data\<close>, and \<open>PacketData\<close> with \<open>Pool\<close>. \<open>Data\<close> and
  \<open>PacketData.Data\<close> are the same slice and \<open>Pool\<close> points back to the Reader's
  pool, so the value model keeps the four data fields.
\<close>

record Packet =
  Time :: Time
  Caplen :: uint32
  Len :: uint32
  Data :: "byte list"

section \<open>The io.Reader the codec pulls from\<close>

text \<open>
  \<open>io.Reader\<close> is an interface. A stream is modelled by the script of what its
  successive \<open>Read\<close> calls have to offer: each event is a run of bytes that has
  arrived together with the error (if any) reported once that run has been handed
  over. \<open>Read(p)\<close> returns at most \<open>len(p)\<close> bytes: a run longer than \<open>p\<close> is
  handed over in pieces, with a nil error until its last piece. An exhausted script
  returns \<open>(0, io.EOF)\<close> for ever. Events with no bytes model zero-byte reads and
  failures between runs; bytes after an error event model a stream that recovers.
  A script is finite: a stream that answers \<open>(0, nil)\<close> for ever, on which the loop
  of \<open>Reader.read\<close> would spin, is not among the streams modelled.
\<close>

type_synonym stream = "(byte list \<times> io_error option) list"

fun stream_Read :: "stream \<Rightarrow> nat \<Rightarrow> (byte list \<times> io_error option) \<times> stream" where
  "stream_Read [] k = (([], Some EOF), [])"
| "stream_Read ((bs, e) # rest) k =
     (if length bs \<le> k then ((bs, e), rest)
      else ((take k bs, None), (drop k bs, e) # rest))"

text \<open>
  The loop of \<open>Reader.read\<close>: \<open>Read(data[n:])\<close> is called, first with \<open>n = 0\<close>,
  until an error comes back or the slice is full. \<open>got\<close> is \<open>data[0:n]\<close>, the
  bytes stored so far, and \<open>k\<close> is \<open>len(data[n:])\<close>; the loop's test
  \<open>n != len(data)\<close> after adding a chunk is \<open>chunk \<noteq> k\<close>.
\<close>

function read_loop :: "stream \<Rightarrow> byte list \<Rightarrow> nat \<Rightarrow> byte list \<times> io_error option \<times> stream" where
  "read_loop s got k =
     (case stream_Read s k of ((chunk, e), s') \<Rightarrow>
        if e = None \<and> length chunk \<noteq> k
        then read_loop s' (got @ chunk) (k - length chunk)
        else (got @ chunk, e, s'))"
  by pat_completeness auto

text \<open>Every further round has used up one event of the script.\<close>

termination read_loop
proof (relation "measure (\<lambda>(s, got, k). length s)")
  show "wf (measure (\<lambda>(s, got, k). length s))"
    by simp
next
  fix s :: stream and got :: "byte list" and k :: nat
    and x :: "byte list \<times> io_error option" and s' :: stream
    and chunk :: "byte list" and e :: "io_error option"
  assume "(x, s') = stream_Read s k" and "(chunk, e) = x"
    and "e = None \<and> length chunk \<noteq> k"
  then have "stream_Read s k = ((chunk, None), s')" and "length chunk \<noteq> k"
    by simp_all
  then have "length s' < length s"
    by (cases s) (auto split: if_splits)
  then show "((s', got @ chunk, k - length chunk), (s, got, k))
               \<in> measure (\<lambda>(s, got, k). length s)"
    by simp
qed

declare read_loop.simps [simp del]

text \<open>
  \<open>Reader.read\<close>: fills \<open>data\<close> from the stream; nil when the slice was filled,
  else the error that stopped the loop. Returns the error, the slice as it is left
  (the bytes read followed by the old contents beyond them) and the stream.
\<close>

definition read :: "stream \<Rightarrow> byte list \<Rightarrow> io_error option \<times> byte list \<times> stream" where
  "read s data =
     (case read_loop s [] (length data) of (got, e, s') \<Rightarrow>
        (if length data = length got then None else e,
         got @ drop (length got) data, s'))"

section \<open>Byte-order helpers\<close>

text \<open>\<open>binary.LittleEndian\<close> and \<open>binary.BigEndian\<close> of Go's encoding/binary.\<close>

definition LittleEndian_Uint32 :: "byte list \<Rightarrow> uint32" where
  "LittleEndian_Uint32 b =
     ucast (b ! 0) OR push_bit 8 (ucast (b ! 1)) OR push_bit 16 (ucast (b ! 2))
       OR push_bit 24 (ucast (b ! 3))"

definition BigEndian_Uint32 :: "byte list \<Rightarrow> uint32" where
  "BigEndian_Uint32 b =
     ucast (b ! 3) OR push_bit 8 (ucast (b ! 2)) OR push_bit 16 (ucast (b ! 1))
       OR push_bit 24 (ucast (b ! 0))"

definition LittleEndian_Uint16 :: "byte list \<Rightarrow> uint16" where
  "LittleEndian_Uint16 b = ucast (b ! 0) OR push_bit 8 (ucast (b ! 1))"

definition BigEndian_Uint16 :: "byte list \<Rightarrow> uint16" where
  "BigEndian_Uint16 b = ucast (b ! 1) OR push_bit 8 (ucast (b ! 0))"

definition asUint32 :: "byte list \<Rightarrow> bool \<Rightarrow> uint32" where
  "asUint32 data flp = (if flp then BigEndian_Uint32 data else LittleEndian_Uint32 data)"

definition asUint16 :: "byte list \<Rightarrow> bool \<Rightarrow> uint16" where
  "asUint16 data flp = (if flp then BigEndian_Uint16 data else LittleEndian_Uint16 data)"

section \<open>Reader\<close>

text \<open>
  \<open>PacketData\<close> is a byte slice. \<open>DataPool\<close> holds the buffers that have been put
  back into the \<open>sync.Pool\<close>. \<open>Count\<close> is Go's \<open>int\<close>, taken to be 64 bits
  wide: it counts allocations and does not wrap, and \<open>int(r.Header.SnapLen)\<close> is
  the value of the unsigned field.
\<close>

type_synonym PacketData = "byte list"

record Reader =
  flip :: bool
  buf :: stream
  err :: "io_error option"
  fourBytes :: "byte list"
  twoBytes :: "byte list"
  sixteenBytes :: "byte list"
  DataPool :: "PacketData list"
  Header :: FileHeader
  Count :: int

definition NewPacketData :: "nat \<Rightarrow> PacketData" where
  "NewPacketData sz = replicate sz 0"

definition readUint32 :: "Reader \<Rightarrow> uint32 \<times> Reader" where
  "readUint32 r =
     (case read (buf r) (fourBytes r) of (e, data, s) \<Rightarrow>
        let r' = r\<lparr>buf := s, fourBytes := data, err := e\<rparr>
        in if e \<noteq> None then (0, r') else (asUint32 data (flip r'), r'))"

definition readInt32 :: "Reader \<Rightarrow> int32 \<times> Reader" where
  "readInt32 r =
     (case read (buf r) (fourBytes r) of (e, data, s) \<Rightarrow>
        let r' = r\<lparr>buf := s, fourBytes := data, err := e\<rparr>
        in if e \<noteq> None then (0, r') else (asUint32 data (flip r'), r'))"

definition readUint16 :: "Reader \<Rightarrow> uint16 \<times> Reader" where
  "readUint16 r =
     (case read (buf r) (twoBytes r) of (e, data, s) \<Rightarrow>
        let r' = r\<lparr>buf := s, twoBytes := data, err := e\<rparr>
        in if e \<noteq> None then (0, r') else (asUint16 data (flip r'), r'))"

text \<open>
  The struct literal of \<open>NewReader\<close>: its six reads run in the order written, and
  the header is stored with the constant magic.
\<close>

definition readHeader :: "Reader \<Rightarrow> Reader" where
  "readHeader r0 =
     (case readUint16 r0 of (vmajor, r1) \<Rightarrow>
      case readUint16 r1 of (vminor, r2) \<Rightarrow>
      case readInt32 r2 of (tz, r3) \<Rightarrow>
      case readUint32 r3 of (sigfigs, r4) \<Rightarrow>
      case readUint32 r4 of (snaplen, r5) \<Rightarrow>
      case readUint32 r5 of (linktype, r6) \<Rightarrow>
        r6\<lparr>Header := \<lparr>MagicNumber = 0xa1b23c4d, VersionMajor = vmajor,
                       VersionMinor = vminor, TimeZone = tz, SigFigs = sigfigs,
                       SnapLen = snaplen, LinkType = linktype\<rparr>\<rparr>)"

definition emptyHeader :: FileHeader where
  "emptyHeader = \<lparr>MagicNumber = 0, VersionMajor = 0, VersionMinor = 0, TimeZone = 0,
                  SigFigs = 0, SnapLen = 0, LinkType = 0\<rparr>"

text \<open>
  \<open>NewReader\<close>. The named result \<open>err\<close> is never assigned, so the final
  \<open>return r, err\<close> returns the Reader with a nil error.
\<close>

definition NewReader :: "stream \<Rightarrow> error + Reader" where
  "NewReader reader =
     (let r = \<lparr>flip = False, buf = reader, err = None, fourBytes = replicate 4 0,
               twoBytes = replicate 2 0, sixteenBytes = replicate 16 0,
               DataPool = [], Header = emptyHeader, Count = 0\<rparr>
      in case readUint32 r of (magic, r') \<Rightarrow>
           if magic = 0xa1b2c3d4 \<or> magic = 0xa1b23c4d
             then Inr (readHeader (r'\<lparr>flip := False\<rparr>))
           else if magic = 0xd4c3b2a1 \<or> magic = 0x4d3cb2a1
             then Inr (readHeader (r'\<lparr>flip := True\<rparr>))
           else Inl (BadMagic magic))"

text \<open>
  \<open>time.Unix(sec, nsec)\<close> of Go's time package: \<open>nsec\<close> outside \<open>[0, 1e9)\<close> is
  carried into the seconds, with Go's truncating division. Both arguments come
  from 32-bit fields here, so the \<open>int64\<close> arithmetic does not overflow.
\<close>

definition time_Unix :: "int \<Rightarrow> int \<Rightarrow> Time" where
  "time_Unix sec nsec =
     (if nsec < 0 \<or> nsec \<ge> 1000000000 then
        let n = nsec sdiv 1000000000;
            sec1 = sec + n;
            nsec1 = nsec - n * 1000000000
        in if nsec1 < 0 then \<lparr>Unix = sec1 - 1, Nanosecond = nsec1 + 1000000000\<rparr>
           else \<lparr>Unix = sec1, Nanosecond = nsec1\<rparr>
      else \<lparr>Unix = sec, Nanosecond = nsec\<rparr>)"

text \<open>
  The \<open>sync.Pool\<close>. Its \<open>New\<close> function is the closure of \<open>NewReader\<close>: count,
  then allocate \<open>SnapLen\<close> zero bytes. \<open>Get\<close> removes and returns some pooled
  item, or treats the pool as empty and calls \<open>New\<close>; which of the two is the
  pool's own choice (sync.Pool promises no relation between what was put and what
  \<open>Get\<close> returns), so it is an argument: \<open>Hit i\<close> takes the \<open>i\<close>-th pooled
  buffer, \<open>Miss\<close> ignores the pool. \<open>Put\<close> is what a caller does with
  \<open>pkt.Pool.Put(pkt.PacketData)\<close>.
\<close>

datatype pool_choice = Miss | Hit nat

definition pool_New :: "Reader \<Rightarrow> PacketData \<times> Reader" where
  "pool_New r =
     (let r' = r\<lparr>Count := Count r + 1\<rparr>
      in (NewPacketData (unat (SnapLen (Header r'))), r'))"

definition pool_Get :: "Reader \<Rightarrow> pool_choice \<Rightarrow> PacketData \<times> Reader" where
  "pool_Get r c =
     (case c of
        Miss \<Rightarrow> pool_New r
      | Hit i \<Rightarrow>
          if i < length (DataPool r)
          then (DataPool r ! i, r\<lparr>DataPool := take i (DataPool r) @ drop (Suc i) (DataPool r)\<rparr>)
          else pool_New r)"

definition pool_Put :: "Reader \<Rightarrow> PacketData \<Rightarrow> Reader" where
  "pool_Put r pd = r\<lparr>DataPool := pd # DataPool r\<rparr>"

text \<open>\<open>Reader.Next\<close>: \<open>None\<close> is the nil packet.\<close>

definition Next :: "Reader \<Rightarrow> pool_choice \<Rightarrow> Packet option \<times> Reader" where
  "Next r c =
     (case read (buf r) (sixteenBytes r) of (e, d, s) \<Rightarrow>
        let r1 = r\<lparr>buf := s, sixteenBytes := d, err := e\<rparr>
        in if e \<noteq> None then (None, r1)
           else
             let timeSec = asUint32 (take 4 d) (flip r1);
                 timeUsec = asUint32 (take 4 (drop 4 d)) (flip r1);
                 capLen = asUint32 (take 4 (drop 8 d)) (flip r1);
                 origLen = asUint32 (take 4 (drop 12 d)) (flip r1)
             in case pool_Get r1 c of (packetData, r2) \<Rightarrow>
                case read (buf r2) packetData of (e', data, s') \<Rightarrow>
                  let r3 = r2\<lparr>buf := s', err := e'\<rparr>
                  in if e' \<noteq> None then (None, r3)
                     else (Some \<lparr>Time = time_Unix (uint timeSec) (uint timeUsec),
                                  Caplen = capLen, Len = origLen, Data = data\<rparr>, r3))"

section \<open>Writer\<close>

text \<open>
  The \<open>io.Writer\<close> is the bytes it has taken so far and a script of faults: each
  \<open>Write\<close> consumes one entry, \<open>None\<close> (or an exhausted script) for a complete
  write, \<open>Some (k, e)\<close> for a write that takes at most \<open>k\<close> bytes and returns \<open>e\<close>.
\<close>

record sink =
  written :: "byte list"
  faults :: "(nat \<times> io_error) option list"

definition sink_Write :: "sink \<Rightarrow> byte list \<Rightarrow> (nat \<times> io_error option) \<times> sink" where
  "sink_Write w p =
     (case faults w of
        [] \<Rightarrow> ((length p, None), w\<lparr>written := written w @ p\<rparr>)
      | None # fs \<Rightarrow> ((length p, None), \<lparr>written = written w @ p, faults = fs\<rparr>)
      | Some (k, e) # fs \<Rightarrow>
          ((min k (length p), Some e), \<lparr>written = written w @ take k p, faults = fs\<rparr>))"

text \<open>
  \<open>binary.LittleEndian.PutUint32(b[off:], v)\<close> and \<open>PutUint16\<close>. The slice they
  are given here is always the Writer's 24-byte buffer at an offset of at most 20,
  so Go's bounds check never fires.
\<close>

definition PutUint32 :: "byte list \<Rightarrow> nat \<Rightarrow> uint32 \<Rightarrow> byte list" where
  "PutUint32 b off v =
     b[off := ucast v, off + 1 := ucast (drop_bit 8 v),
       off + 2 := ucast (drop_bit 16 v), off + 3 := ucast (drop_bit 24 v)]"

definition PutUint16 :: "byte list \<Rightarrow> nat \<Rightarrow> uint16 \<Rightarrow> byte list" where
  "PutUint16 b off v = b[off := ucast v, off + 1 := ucast (drop_bit 8 v)]"

text \<open>The struct \<open>Writer\<close>; its field \<open>buf\<close> is \<open>wbuf\<close> here (the Reader has a \<open>buf\<close>).\<close>

record Writer =
  writer :: sink
  wbuf :: "byte list"

text \<open>
  \<open>NewWriter\<close>: \<open>Inl\<close> is the return \<open>nil, err\<close>, with the sink as the failed write
  left it.
\<close>

definition NewWriter :: "sink \<Rightarrow> FileHeader \<Rightarrow> (io_error \<times> sink) + Writer" where
  "NewWriter wr header =
     (let b0 = replicate 24 0;
          b1 = PutUint32 b0 0 (MagicNumber header);
          b2 = PutUint16 b1 4 (VersionMajor header);
          b3 = PutUint16 b2 6 (VersionMinor header);
          b4 = PutUint32 b3 8 (TimeZone header);
          b5 = PutUint32 b4 12 (SigFigs header);
          b6 = PutUint32 b5 16 (SnapLen header);
          b7 = PutUint32 b6 20 (LinkType header)
      in case sink_Write wr b7 of ((n, e), wr') \<Rightarrow>
           (case e of Some x \<Rightarrow> Inl (x, wr')
            | None \<Rightarrow> Inr \<lparr>writer = wr', wbuf = b7\<rparr>))"

text \<open>\<open>Writer.Write\<close>: the conversions \<open>uint32(...)\<close> keep the low 32 bits.\<close>

definition Writer_Write :: "Writer \<Rightarrow> Packet \<Rightarrow> io_error option \<times> Writer" where
  "Writer_Write w pkt =
     (let b1 = PutUint32 (wbuf w) 0 (word_of_int (Unix (Time pkt)));
          b2 = PutUint32 b1 4 (word_of_int (Nanosecond (Time pkt)));
          b3 = PutUint32 b2 8 (Caplen pkt);
          b4 = PutUint32 b3 12 (Len pkt)
      in case sink_Write (writer w) (take 16 b4) of ((n, e), wr1) \<Rightarrow>
           if e \<noteq> None then (e, \<lparr>writer = wr1, wbuf = b4\<rparr>)
           else case sink_Write wr1 (Data pkt) of ((n', e'), wr2) \<Rightarrow>
                  (e', \<lparr>writer = wr2, wbuf = b4\<rparr>))"

section \<open>Whole runs\<close>

text \<open>Writing packets one after the other, stopping at the first error.\<close>

fun write_all :: "Writer \<Rightarrow> Packet list \<Rightarrow> io_error option \<times> Writer" where
  "write_all w [] = (None, w)"
| "write_all w (p # ps) =
     (case Writer_Write w p of
        (Some e, w') \<Rightarrow> (Some e, w')
      | (None, w') \<Rightarrow> write_all w' ps)"

text \<open>Calling \<open>Next\<close> once for each pool choice of a list, collecting what it returns.\<close>

fun next_all :: "Reader \<Rightarrow> pool_choice list \<Rightarrow> Packet option list \<times> Reader" where
  "next_all r [] = ([], r)"
| "next_all r (c # cs) =
     (case Next r c of (p, r') \<Rightarrow>
      case next_all r' cs of (ps, r'') \<Rightarrow> (p # ps, r''))"

text \<open>The bytes a sink that never fails has taken after a header and a list of packets.\<close>

definition pcap_file :: "FileHeader \<Rightarrow> Packet list \<Rightarrow> byte list" where
  "pcap_file h pkts =
     (case NewWriter \<lparr>written = [], faults = []\<rparr> h of
        Inl x \<Rightarrow> written (snd x)
      | Inr w \<Rightarrow> written (writer (snd (write_all w pkts))))"

text \<open>
  The bytes a stream still has to deliver, and the streams that deliver their bytes
  without ever reporting an error before the end (in any chunking).
\<close>

definition remaining :: "stream \<Rightarrow> byte list" where
  "remaining s = concat (map fst s)"

definition clean :: "stream \<Rightarrow> bool" where
  "clean s = list_all (\<lambda>ev. snd ev = None) s"

section \<open>The layouts the specification gives\<close>

text \<open>
  Little-endian encoding in \<open>n\<close> bytes: byte \<open>i\<close> holds bits \<open>8i\<close> to \<open>8i + 7\<close>.
\<close>

definition le_bytes :: "nat \<Rightarrow> 'a::len word \<Rightarrow> byte list" where
  "le_bytes n v = map (\<lambda>i. ucast (drop_bit (8 * i) v)) [0..<n]"

text \<open>
  File header, 24 bytes:
  magic(4) | version_major(2) | version_minor(2) | tz_offset(4) | sig_figs(4) |
  snaplen(4) | linktype(4).
\<close>

definition spec_file_header :: "FileHeader \<Rightarrow> byte list" where
  "spec_file_header h =
     le_bytes 4 (MagicNumber h) @ le_bytes 2 (VersionMajor h) @ le_bytes 2 (VersionMinor h)
       @ le_bytes 4 (TimeZone h) @ le_bytes 4 (SigFigs h) @ le_bytes 4 (SnapLen h)
       @ le_bytes 4 (LinkType h)"

text \<open>
  Record header, 16 bytes:
  ts_seconds(4) | ts_fraction(4) | captured_length(4) | original_length(4).
\<close>

definition spec_record_header :: "Packet \<Rightarrow> byte list" where
  "spec_record_header p =
     le_bytes 4 (word_of_int (Unix (Time p)) :: uint32)
       @ le_bytes 4 (word_of_int (Nanosecond (Time p)) :: uint32)
       @ le_bytes 4 (Caplen p) @ le_bytes 4 (Len p)"

section \<open>Example data\<close>

text \<open>
  Three file headers with version 2.4, snapshot length 2 and link type 1: native
  byte order with the microsecond and with the nanosecond magic, and swapped byte
  order; and one record of a native file: second 1, fraction 500000, captured
  length 1, original length 9, payload \<open>aa bb\<close>.
\<close>

definition example_header_usec :: "byte list" where
  "example_header_usec =
     [0xd4, 0xc3, 0xb2, 0xa1, 2, 0, 4, 0, 0, 0, 0, 0, 0, 0, 0, 0, 2, 0, 0, 0, 1, 0, 0, 0]"

definition example_header_nsec :: "byte list" where
  "example_header_nsec =
     [0x4d, 0x3c, 0xb2, 0xa1, 2, 0, 4, 0, 0, 0, 0, 0, 0, 0, 0, 0, 2, 0, 0, 0, 1, 0, 0, 0]"

definition example_header_swapped :: "byte list" where
  "example_header_swapped =
     [0xa1, 0xb2, 0xc3, 0xd4, 0, 2, 0, 4, 0, 0, 0, 0, 0, 0, 0, 0, 0, 0, 0, 2, 0, 0, 0, 1]"

definition example_record :: "byte list" where
  "example_record =
     [1, 0, 0, 0, 0x20, 0xa1, 0x07, 0, 1, 0, 0, 0, 9, 0, 0, 0, 0xaa, 0xbb]"


text \<open>
  The Reader that \<open>NewReader\<close> returns for \<open>example_header_usec\<close> or
  \<open>example_header_nsec\<close> followed by the stream \<open>s\<close>.
\<close>

definition example_reader :: "stream \<Rightarrow> Reader" where
  "example_reader s =
     \<lparr>flip = False, buf = s, err = None, fourBytes = [1, 0, 0, 0], twoBytes = [4, 0],
      sixteenBytes = replicate 16 0, DataPool = [],
      Header = \<lparr>MagicNumber = 0xa1b23c4d, VersionMajor = 2, VersionMinor = 4,
                TimeZone = 0, SigFigs = 0, SnapLen = 2, LinkType = 1\<rparr>,
      Count = 0\<rparr>"

text \<open>The packet of \<open>example_record\<close>, and file headers that differ in the magic only.\<close>

definition example_packet :: Packet where
  "example_packet =
     \<lparr>Time = \<lparr>Unix = 1, Nanosecond = 500000\<rparr>, Caplen = 1, Len = 9, Data = [0xaa, 0xbb]\<rparr>"

definition example_FileHeader :: "uint32 \<Rightarrow> FileHeader" where
  "example_FileHeader magic =
     \<lparr>MagicNumber = magic, VersionMajor = 2, VersionMinor = 4, TimeZone = 0, SigFigs = 0,
      SnapLen = 2, LinkType = 1\<rparr>"

section \<open>Notions for the round trip\<close>

text \<open>The bytes of one record in a file: its header, then its payload buffer.\<close>

definition record_bytes :: "Packet \<Rightarrow> byte list" where
  "record_bytes p = spec_record_header p @ Data p"

text \<open>
  A Reader in native byte order whose stream delivers the bytes \<open>bs\<close> without
  failing, and whose scratch buffers have the sizes \<open>NewReader\<close> gave them.
\<close>

definition feeding :: "Reader \<Rightarrow> byte list \<Rightarrow> bool" where
  "feeding r bs \<longleftrightarrow>
     \<not> flip r \<and> clean (buf r) \<and> remaining (buf r) = bs \<and> length (fourBytes r) = 4
       \<and> length (twoBytes r) = 2 \<and> length (sixteenBytes r) = 16"

text \<open>
  A packet that a file with header \<open>h\<close> can hold: its payload buffer has
  \<open>SnapLen\<close> bytes, its seconds fit the unsigned 32-bit field, and its nanosecond
  offset is in the range \<open>Time.Nanosecond\<close> always returns.
\<close>

definition storable :: "FileHeader \<Rightarrow> Packet \<Rightarrow> bool" where
  "storable h p \<longleftrightarrow>
     length (Data p) = unat (SnapLen h) \<and> 0 \<le> Unix (Time p) \<and> Unix (Time p) < 2 ^ 32
       \<and> 0 \<le> Nanosecond (Time p) \<and> Nanosecond (Time p) < 1000000000"

section \<open>What the header reads leave alone\<close>

lemma flip_readUint32 [simp]: "flip (snd (readUint32 r)) = flip r"
  by (simp add: readUint32_def Let_def split: prod.splits)

lemma flip_readInt32 [simp]: "flip (snd (readInt32 r)) = flip r"
  by (simp add: readInt32_def Let_def split: prod.splits)

lemma flip_readUint16 [simp]: "flip (snd (readUint16 r)) = flip r"
  by (simp add: readUint16_def Let_def split: prod.splits)

lemma readHeader_alt:
  "readHeader r0 =
     (let r1 = snd (readUint16 r0); r2 = snd (readUint16 r1); r3 = snd (readInt32 r2);
          r4 = snd (readUint32 r3); r5 = snd (readUint32 r4); r6 = snd (readUint32 r5)
      in r6\<lparr>Header := \<lparr>MagicNumber = 0xa1b23c4d, VersionMajor = fst (readUint16 r0),
                       VersionMinor = fst (readUint16 r1), TimeZone = fst (readInt32 r2),
                       SigFigs = fst (readUint32 r3), SnapLen = fst (readUint32 r4),
                       LinkType = fst (readUint32 r5)\<rparr>\<rparr>)"
  by (simp add: readHeader_def Let_def split: prod.splits)

lemma flip_readHeader [simp]: "flip (readHeader r) = flip r"
  by (simp add: readHeader_alt Let_def)

lemma MagicNumber_readHeader [simp]: "MagicNumber (Header (readHeader r)) = 0xa1b23c4d"
  by (simp add: readHeader_alt Let_def)

section \<open>Magic detection\<close>

text \<open>
  C2. When the first four bytes of the stream decode (little-endian, the byte order
  a new Reader starts with) to 0xa1b2c3d4 or 0xa1b23c4d and the stream supplies the
  20 header bytes after them, \<open>NewReader\<close> returns a Reader whose \<open>flip\<close> is false;
  for 0xd4c3b2a1 or 0x4d3cb2a1 it returns a Reader whose \<open>flip\<close> is true; for any
  other value it returns no Reader but the bad-magic error with that value.
\<close>

theorem NewReader_magic_detection:
  assumes "read s (replicate 4 0) = (None, m, s')"
  shows "(asUint32 m False \<in> {0xa1b2c3d4, 0xa1b23c4d} \<and> fst (read s' (replicate 20 0)) = None
            \<longrightarrow> (\<exists>r. NewReader s = Inr r \<and> flip r = False))
       \<and> (asUint32 m False \<in> {0xd4c3b2a1, 0x4d3cb2a1} \<and> fst (read s' (replicate 20 0)) = None
            \<longrightarrow> (\<exists>r. NewReader s = Inr r \<and> flip r = True))
       \<and> (asUint32 m False \<notin> {0xa1b2c3d4, 0xa1b23c4d, 0xd4c3b2a1, 0x4d3cb2a1}
            \<longrightarrow> NewReader s = Inl (BadMagic (asUint32 m False)))"
  using assms by (auto simp: NewReader_def readUint32_def Let_def)

theorem NewReader_magic_detection_witness:
  "(\<exists>r. NewReader [(example_header_nsec, None)] = Inr r \<and> flip r = False)
   \<and> (\<exists>r. NewReader [(example_header_swapped, None)] = Inr r \<and> flip r = True)
   \<and> NewReader [([1, 2, 3, 4], None)] = Inl (BadMagic 0x04030201)"
proof -
  have n1: "read [(example_header_nsec, None)] (replicate 4 0)
              = (None, [0x4d, 0x3c, 0xb2, 0xa1], [(drop 4 example_header_nsec, None)])"
    by code_simp
  have n2: "asUint32 [0x4d, 0x3c, 0xb2, 0xa1] False = 0xa1b23c4d"
    by (simp add: asUint32_def LittleEndian_Uint32_def)
  have n3: "fst (read [(drop 4 example_header_nsec, None)] (replicate 20 0)) = None"
    by code_simp
  have s1: "read [(example_header_swapped, None)] (replicate 4 0)
              = (None, [0xa1, 0xb2, 0xc3, 0xd4], [(drop 4 example_header_swapped, None)])"
    by code_simp
  have s2: "asUint32 [0xa1, 0xb2, 0xc3, 0xd4] False = 0xd4c3b2a1"
    by (simp add: asUint32_def LittleEndian_Uint32_def)
  have s3: "fst (read [(drop 4 example_header_swapped, None)] (replicate 20 0)) = None"
    by code_simp
  have b1: "read [([1, 2, 3, 4], None)] (replicate 4 0) = (None, [1, 2, 3, 4], [])"
    by code_simp
  have b2: "asUint32 [1, 2, 3, 4] False = 0x04030201"
    by (simp add: asUint32_def LittleEndian_Uint32_def)
  show ?thesis
    using NewReader_magic_detection [OF n1] NewReader_magic_detection [OF s1]
      NewReader_magic_detection [OF b1] n2 n3 s2 s3 b2
    by simp
qed

section \<open>The stored magic number\<close>

text \<open>
  C10. Whenever \<open>NewReader\<close> returns a Reader, the \<open>MagicNumber\<close> of its stored
  header is the constant 0xa1b23c4d, whichever accepted magic the stream began with.
\<close>

theorem NewReader_stores_constant_magic:
  "NewReader s = Inr r \<Longrightarrow> MagicNumber (Header r) = 0xa1b23c4d"
  by (auto simp: NewReader_def Let_def split: prod.splits if_splits)

theorem NewReader_stores_constant_magic_witness:
  "NewReader [(example_header_swapped, None)]
     = Inr \<lparr>flip = True, buf = [], err = None, fourBytes = [0, 0, 0, 1],
            twoBytes = [0, 4], sixteenBytes = replicate 16 0, DataPool = [],
            Header = \<lparr>MagicNumber = 0xa1b23c4d, VersionMajor = 2, VersionMinor = 4,
                      TimeZone = 0, SigFigs = 0, SnapLen = 2, LinkType = 1\<rparr>,
            Count = 0\<rparr>
   \<and> MagicNumber (Header \<lparr>flip = True, buf = [], err = None, fourBytes = [0, 0, 0, 1],
            twoBytes = [0, 4], sixteenBytes = replicate 16 0, DataPool = [],
            Header = \<lparr>MagicNumber = 0xa1b23c4d, VersionMajor = 2, VersionMinor = 4,
                      TimeZone = 0, SigFigs = 0, SnapLen = 2, LinkType = 1\<rparr>,
            Count = 0\<rparr>) = 0xa1b23c4d"
proof -
  have run: "NewReader [(example_header_swapped, None)]
     = Inr \<lparr>flip = True, buf = [], err = None, fourBytes = [0, 0, 0, 1],
            twoBytes = [0, 4], sixteenBytes = replicate 16 0, DataPool = [],
            Header = \<lparr>MagicNumber = 0xa1b23c4d, VersionMajor = 2, VersionMinor = 4,
                      TimeZone = 0, SigFigs = 0, SnapLen = 2, LinkType = 1\<rparr>,
            Count = 0\<rparr>"
    by code_simp
  show ?thesis
    using run NewReader_stores_constant_magic [OF run] by simp
qed

section \<open>A header that stops short\<close>

text \<open>
  Once the magic is accepted nothing can make \<open>NewReader\<close> fail: no read of the
  six fields after it is checked.
\<close>

lemma NewReader_accepts_any_tail:
  assumes "read s (replicate 4 0) = (None, m, s')"
    and "asUint32 m False \<in> {0xa1b2c3d4, 0xa1b23c4d, 0xd4c3b2a1, 0x4d3cb2a1}"
  shows "\<exists>r. NewReader s = Inr r"
  using assms by (auto simp: NewReader_def readUint32_def Let_def)

text \<open>
  C3. The claim: a stream that starts with an accepted magic but cannot supply the
  six fields after it makes \<open>NewReader\<close> fail. The code at a stream that ends after
  ten bytes (the microsecond magic, version 2.4 and two bytes of the time zone):
  \<open>NewReader\<close> returns a Reader and a nil error. The failed reads are kept in
  \<open>r.err\<close> only, the fields they could not read are zero (a snapshot length of 0
  among them), and the result \<open>err\<close> that \<open>NewReader\<close> returns is never assigned.
\<close>

theorem NewReader_truncated_header_returns_Reader:
  "NewReader [(take 10 example_header_usec, None)]
     = Inr \<lparr>flip = False, buf = [], err = Some EOF, fourBytes = [0, 0, 0xb2, 0xa1],
            twoBytes = [4, 0], sixteenBytes = replicate 16 0, DataPool = [],
            Header = \<lparr>MagicNumber = 0xa1b23c4d, VersionMajor = 2, VersionMinor = 4,
                      TimeZone = 0, SigFigs = 0, SnapLen = 0, LinkType = 0\<rparr>,
            Count = 0\<rparr>"
  by code_simp

section \<open>Failing reads in Next\<close>

lemma Next_header_fail:
  "read (buf r) (sixteenBytes r) = (Some e, d, s)
     \<Longrightarrow> Next r c = (None, r\<lparr>buf := s, sixteenBytes := d, err := Some e\<rparr>)"
  by (simp add: Next_def)

lemma Next_err_ignored: "Next (r\<lparr>err := x\<rparr>) c = Next r c"
  by (simp add: Next_def pool_Get_def pool_New_def Let_def split: prod.splits pool_choice.splits)

lemma buf_pool_Get [simp]: "buf (snd (pool_Get r c)) = buf r"
  by (simp add: pool_Get_def pool_New_def Let_def split: pool_choice.splits)

lemma Next_payload_fail:
  assumes "read (buf r) (sixteenBytes r) = (None, d, s)"
    and "pool_Get (r\<lparr>buf := s, sixteenBytes := d, err := None\<rparr>) c = (pd, r2)"
    and "fst (read s pd) = Some e"
  shows "fst (Next r c) = None \<and> err (snd (Next r c)) = Some e"
proof -
  have "buf r2 = s"
    using buf_pool_Get [of "r\<lparr>buf := s, sixteenBytes := d, err := None\<rparr>" c] assms(2) by simp
  moreover obtain d2 s2 where "read s pd = (Some e, d2, s2)"
    using assms(3) by (cases "read s pd") auto
  ultimately show ?thesis
    using assms(1,2) by (simp add: Next_def Let_def)
qed

lemma read_at_end:
  assumes "stream_Read s (length data) = (([], Some e), s')" and "data \<noteq> []"
  shows "read s data = (Some e, data, s')"
  using assms by (simp add: read_def read_loop.simps)

lemma Next_at_exhausted:
  assumes "buf r = []" and "sixteenBytes r \<noteq> []"
  shows "fst (Next r c) = None \<and> err (snd (Next r c)) = Some EOF \<and> buf (snd (Next r c)) = []"
proof -
  have "read (buf r) (sixteenBytes r) = (Some EOF, sixteenBytes r, [])"
    using assms by (intro read_at_end) auto
  then show ?thesis
    by (simp add: Next_header_fail)
qed

subsection \<open>End of the stream at a record boundary\<close>

text \<open>
  C4, as stated: when the \<open>Read\<close> for the next record header yields zero bytes and
  \<open>io.EOF\<close>, \<open>Next\<close> returns nil with no error recorded. It fails on the Reader of
  a file that holds a header and no record: \<open>Next\<close> returns nil, and the Reader's
  \<open>err\<close> is \<open>io.EOF\<close>, not nil.
\<close>

theorem Next_at_clean_end_records_EOF:
  "NewReader [(example_header_nsec, None)] = Inr (example_reader [])
   \<and> stream_Read (buf (example_reader [])) 16 = (([], Some EOF), [])
   \<and> fst (Next (example_reader []) Miss) = None
   \<and> err (snd (Next (example_reader []) Miss)) \<noteq> None"
  by code_simp

text \<open>
  C4, amended: when the \<open>Read\<close> for the next record header yields zero bytes and
  \<open>io.EOF\<close>, \<open>Next\<close> returns nil and leaves \<open>io.EOF\<close> in the Reader's \<open>err\<close>;
  nothing else of the Reader changes but the stream.
\<close>

theorem Next_at_clean_end:
  assumes "length (sixteenBytes r) = 16"
    and "stream_Read (buf r) 16 = (([], Some EOF), s')"
  shows "Next r c = (None, r\<lparr>buf := s', err := Some EOF\<rparr>)"
proof -
  have "read (buf r) (sixteenBytes r) = (Some EOF, sixteenBytes r, s')"
    using assms by (intro read_at_end) auto
  then show ?thesis
    by (simp add: Next_header_fail)
qed

theorem Next_at_clean_end_witness:
  "length (sixteenBytes (example_reader [])) = 16
   \<and> stream_Read (buf (example_reader [])) 16 = (([], Some EOF), [])
   \<and> Next (example_reader []) Miss
       = (None, (example_reader [])\<lparr>buf := [], err := Some EOF\<rparr>)"
proof -
  have len: "length (sixteenBytes (example_reader [])) = 16"
    by (simp add: example_reader_def)
  have rd: "stream_Read (buf (example_reader [])) 16 = (([], Some EOF), [])"
    by (simp add: example_reader_def)
  show ?thesis
    using len rd Next_at_clean_end [OF len rd, of Miss] by simp
qed

subsection \<open>Errors are kept, but not for long\<close>

text \<open>
  C5, as stated: after a call of \<open>Next\<close> in which a read failed, the error is
  surfaced again by the calls that follow. It fails on a stream whose \<open>Read\<close> fails
  once between the file header and a record (a read that timed out, say): the first
  \<open>Next\<close> returns nil and keeps the error, the second reads the record, returns
  it and resets \<open>err\<close> to nil.
\<close>

theorem Next_after_error_reads_on:
  "NewReader [(example_header_nsec, None), ([], Some (IOFailure 0)), (example_record, None)]
     = Inr (example_reader [([], Some (IOFailure 0)), (example_record, None)])
   \<and> Next (example_reader [([], Some (IOFailure 0)), (example_record, None)]) Miss
     = (None, (example_reader [(example_record, None)])\<lparr>err := Some (IOFailure 0)\<rparr>)
   \<and> Next ((example_reader [(example_record, None)])\<lparr>err := Some (IOFailure 0)\<rparr>) Miss
     = (Some \<lparr>Time = \<lparr>Unix = 1, Nanosecond = 500000\<rparr>, Caplen = 1, Len = 9,
              Data = [0xaa, 0xbb]\<rparr>,
        (example_reader [])\<lparr>sixteenBytes := take 16 example_record, Count := 1\<rparr>)"
  by code_simp

text \<open>
  C5, amended: a call of \<open>Next\<close> in which the read of the record header or of the
  payload fails returns nil, never a record, and leaves that read's error in the
  Reader's \<open>err\<close>. The stored error is not consulted afterwards: \<open>Next\<close> does the
  same whatever \<open>err\<close> holds, so each later call reads the stream again and
  overwrites \<open>err\<close> with its own outcome. The failure lasts as long as the stream
  keeps failing: on a stream that has run out, every call returns nil, leaves
  \<open>io.EOF\<close> in \<open>err\<close> and the stream run out.
\<close>

theorem Next_error_retained_not_sticky:
  "(fst (read (buf r) (sixteenBytes r)) = Some e
      \<longrightarrow> fst (Next r c) = None \<and> err (snd (Next r c)) = Some e)
   \<and> (read (buf r) (sixteenBytes r) = (None, d, s)
        \<and> pool_Get (r\<lparr>buf := s, sixteenBytes := d, err := None\<rparr>) c = (pd, r2)
        \<and> fst (read s pd) = Some e
      \<longrightarrow> fst (Next r c) = None \<and> err (snd (Next r c)) = Some e)
   \<and> Next (r\<lparr>err := x\<rparr>) c = Next r c
   \<and> (buf r = [] \<and> sixteenBytes r \<noteq> []
      \<longrightarrow> fst (Next r c) = None \<and> err (snd (Next r c)) = Some EOF
          \<and> buf (snd (Next r c)) = [])"
proof (intro conjI impI)
  assume "fst (read (buf r) (sixteenBytes r)) = Some e"
  then obtain d' s' where "read (buf r) (sixteenBytes r) = (Some e, d', s')"
    by (cases "read (buf r) (sixteenBytes r)") auto
  then have "Next r c = (None, r\<lparr>buf := s', sixteenBytes := d', err := Some e\<rparr>)"
    by (rule Next_header_fail)
  then show "fst (Next r c) = None" and "err (snd (Next r c)) = Some e"
    by simp_all
next
  assume "read (buf r) (sixteenBytes r) = (None, d, s)
        \<and> pool_Get (r\<lparr>buf := s, sixteenBytes := d, err := None\<rparr>) c = (pd, r2)
        \<and> fst (read s pd) = Some e"
  then show "fst (Next r c) = None" and "err (snd (Next r c)) = Some e"
    using Next_payload_fail [of r d s c pd r2 e] by simp_all
next
  show "Next (r\<lparr>err := x\<rparr>) c = Next r c"
    by (rule Next_err_ignored)
next
  assume "buf r = [] \<and> sixteenBytes r \<noteq> []"
  then show "fst (Next r c) = None" and "err (snd (Next r c)) = Some EOF"
    and "buf (snd (Next r c)) = []"
    using Next_at_exhausted [of r c] by simp_all
qed

theorem Next_error_retained_not_sticky_witness:
  "fst (read (buf (example_reader [([], Some (IOFailure 0))]))
          (sixteenBytes (example_reader [([], Some (IOFailure 0))]))) = Some (IOFailure 0)
   \<and> fst (Next (example_reader [([], Some (IOFailure 0))]) Miss) = None
   \<and> err (snd (Next (example_reader [([], Some (IOFailure 0))]) Miss)) = Some (IOFailure 0)
   \<and> read (buf (example_reader [(take 17 example_record, None)]))
          (sixteenBytes (example_reader [(take 17 example_record, None)]))
        = (None, take 16 example_record, [([0xaa], None)])
   \<and> pool_Get ((example_reader [(take 17 example_record, None)])
                  \<lparr>buf := [([0xaa], None)], sixteenBytes := take 16 example_record,
                   err := None\<rparr>) Miss
        = ([0, 0], (example_reader [([0xaa], None)])
                     \<lparr>sixteenBytes := take 16 example_record, Count := 1\<rparr>)
   \<and> fst (read [([0xaa], None)] [0, 0]) = Some EOF
   \<and> fst (Next (example_reader [(take 17 example_record, None)]) Miss) = None
   \<and> err (snd (Next (example_reader [(take 17 example_record, None)]) Miss)) = Some EOF
   \<and> buf (example_reader []) = [] \<and> sixteenBytes (example_reader []) \<noteq> []
   \<and> fst (Next (example_reader []) Miss) = None
   \<and> err (snd (Next (example_reader []) Miss)) = Some EOF
   \<and> buf (snd (Next (example_reader []) Miss)) = []"
proof -
  have h: "fst (read (buf (example_reader [([], Some (IOFailure 0))]))
          (sixteenBytes (example_reader [([], Some (IOFailure 0))]))) = Some (IOFailure 0)"
    by code_simp
  have a: "read (buf (example_reader [(take 17 example_record, None)]))
          (sixteenBytes (example_reader [(take 17 example_record, None)]))
        = (None, take 16 example_record, [([0xaa], None)])"
    by code_simp
  have b: "pool_Get ((example_reader [(take 17 example_record, None)])
                  \<lparr>buf := [([0xaa], None)], sixteenBytes := take 16 example_record,
                   err := None\<rparr>) Miss
        = ([0, 0], (example_reader [([0xaa], None)])
                     \<lparr>sixteenBytes := take 16 example_record, Count := 1\<rparr>)"
    by code_simp
  have c: "fst (read [([0xaa], None)] [0, 0]) = Some EOF"
    by code_simp
  note t1 = Next_error_retained_not_sticky
    [of "example_reader [([], Some (IOFailure 0))]" "IOFailure 0" Miss,
      THEN conjunct1, rule_format, OF h]
  note t2 = Next_error_retained_not_sticky
    [of "example_reader [(take 17 example_record, None)]" EOF Miss
      "take 16 example_record" "[([0xaa], None)]" "[0, 0]"
      "(example_reader [([0xaa], None)])\<lparr>sixteenBytes := take 16 example_record, Count := 1\<rparr>",
      THEN conjunct2, THEN conjunct1, rule_format, OF conjI [OF a conjI [OF b c]]]
  have x: "buf (example_reader []) = [] \<and> sixteenBytes (example_reader []) \<noteq> []"
    by (simp add: example_reader_def)
  note t3 = Next_error_retained_not_sticky
    [of "example_reader []" _ Miss, THEN conjunct2, THEN conjunct2, THEN conjunct2,
      rule_format, OF x]
  show ?thesis
    using h a b c t1 t2 x t3 by blast
qed

section \<open>Timestamps\<close>

text \<open>
  Whatever the magic was, the timestamp of a packet is the instant of its seconds
  field plus its fraction field counted in nanoseconds.
\<close>

lemma time_Unix_instant:
  assumes "0 \<le> nsec"
  shows "Unix (time_Unix sec nsec) * 1000000000 + Nanosecond (time_Unix sec nsec)
           = sec * 1000000000 + nsec
         \<and> 0 \<le> Nanosecond (time_Unix sec nsec)
         \<and> Nanosecond (time_Unix sec nsec) < 1000000000"
proof -
  have sd: "nsec sdiv 1000000000 = nsec div 1000000000"
    using assms by (cases "nsec = 0") (simp_all add: signed_divide_int_def)
  have md: "nsec - nsec div 1000000000 * 1000000000 = nsec mod 1000000000"
    by (simp add: minus_div_mult_eq_mod)
  have ge: "0 \<le> nsec mod 1000000000" and lt: "nsec mod 1000000000 < 1000000000"
    by simp_all
  show ?thesis
  proof (cases "nsec < 1000000000")
    case True
    then show ?thesis
      using assms by (simp add: time_Unix_def)
  next
    case False
    then have "time_Unix sec nsec
                 = \<lparr>Unix = sec + nsec div 1000000000, Nanosecond = nsec mod 1000000000\<rparr>"
      using ge by (simp add: time_Unix_def Let_def sd md)
    then show ?thesis
      using ge lt by (simp add: algebra_simps)
  qed
qed

lemma Next_timestamp:
  assumes "Next r c = (Some pkt, r')" and "read (buf r) (sixteenBytes r) = (e, d, s)"
  shows "Unix (Time pkt) * 1000000000 + Nanosecond (Time pkt)
           = uint (asUint32 (take 4 d) (flip r)) * 1000000000
               + uint (asUint32 (take 4 (drop 4 d)) (flip r))
         \<and> 0 \<le> Nanosecond (Time pkt) \<and> Nanosecond (Time pkt) < 1000000000"
proof -
  have "Time pkt = time_Unix (uint (asUint32 (take 4 d) (flip r)))
                     (uint (asUint32 (take 4 (drop 4 d)) (flip r)))"
    using assms by (auto simp: Next_def Let_def split: prod.splits if_splits)
  then show ?thesis
    using time_Unix_instant [of "uint (asUint32 (take 4 (drop 4 d)) (flip r))"
        "uint (asUint32 (take 4 d) (flip r))"]
    by simp
qed

text \<open>
  C6. The claim: the fraction field counts microseconds in a file whose magic is
  0xa1b2c3d4 or 0xd4c3b2a1. The code at such a file, whose one record has second 1
  and fraction 500000 (half a second): \<open>Next\<close> passes the fraction, which it calls
  \<open>timeUsec\<close>, to \<open>time.Unix\<close> as nanoseconds, and returns the instant 1 s +
  500000 ns instead of 1 s + 500000000 ns.
\<close>

theorem Next_reads_microseconds_as_nanoseconds:
  "NewReader [(example_header_usec @ example_record, None)]
     = Inr (example_reader [(example_record, None)])
   \<and> fst (Next (example_reader [(example_record, None)]) Miss)
     = Some \<lparr>Time = \<lparr>Unix = 1, Nanosecond = 500000\<rparr>, Caplen = 1, Len = 9,
              Data = [0xaa, 0xbb]\<rparr>"
  by code_simp

section \<open>Byte layouts\<close>

lemma le_bytes_4:
  "le_bytes 4 v = [ucast v, ucast (drop_bit 8 v), ucast (drop_bit 16 v), ucast (drop_bit 24 v)]"
  by (simp add: le_bytes_def upt_rec)

lemma le_bytes_2: "le_bytes 2 v = [ucast v, ucast (drop_bit 8 v)]"
  by (simp add: le_bytes_def upt_rec)

lemma length_le_bytes [simp]: "length (le_bytes n v) = n"
  by (simp add: le_bytes_def)

lemma PutUint32_conv:
  "off + 4 \<le> length b \<Longrightarrow> PutUint32 b off v = take off b @ le_bytes 4 v @ drop (off + 4) b"
  unfolding PutUint32_def le_bytes_4
  by (rule nth_equalityI)
    (auto simp: nth_append nth_list_update nth_Cons' intro!: arg_cong [where f = "(!) b"])

lemma PutUint16_conv:
  "off + 2 \<le> length b \<Longrightarrow> PutUint16 b off v = take off b @ le_bytes 2 v @ drop (off + 2) b"
  unfolding PutUint16_def le_bytes_2
  by (rule nth_equalityI)
    (auto simp: nth_append nth_list_update nth_Cons' intro!: arg_cong [where f = "(!) b"])

lemma length_PutUint32 [simp]: "length (PutUint32 b off v) = length b"
  by (simp add: PutUint32_def)

lemma length_PutUint16 [simp]: "length (PutUint16 b off v) = length b"
  by (simp add: PutUint16_def)

lemma header_buffer:
  "PutUint32 (PutUint32 (PutUint32 (PutUint32 (PutUint16 (PutUint16 (PutUint32 (replicate 24 0) 0 m) 4 a) 6 b) 8 c) 12 d) 16 e) 20 f
   = le_bytes 4 m @ le_bytes 2 a @ le_bytes 2 b @ le_bytes 4 c @ le_bytes 4 d @ le_bytes 4 e @ le_bytes 4 f"
  by (simp add: PutUint32_conv PutUint16_conv)

lemma record_buffer:
  "length wb = 24 \<Longrightarrow> take 16 (PutUint32 (PutUint32 (PutUint32 (PutUint32 wb 0 a) 4 b) 8 c) 12 d)
   = le_bytes 4 a @ le_bytes 4 b @ le_bytes 4 c @ le_bytes 4 d"
  by (simp add: PutUint32_conv)

lemma spec_file_header_length: "length (spec_file_header h) = 24"
  by (simp add: spec_file_header_def)

lemma spec_record_header_length [simp]: "length (spec_record_header p) = 16"
  by (simp add: spec_record_header_def)


section \<open>Writing the file header\<close>

lemma NewWriter_conv:
  "NewWriter wr h =
     (case sink_Write wr (spec_file_header h) of
        ((n, Some x), wr') \<Rightarrow> Inl (x, wr')
      | ((n, None), wr') \<Rightarrow> Inr \<lparr>writer = wr', wbuf = spec_file_header h\<rparr>)"
  by (simp add: NewWriter_def Let_def header_buffer spec_file_header_def split: prod.splits)


text \<open>
  C8. The buffer \<open>NewWriter\<close> fills is the 24 bytes
  magic(4) | version_major(2) | version_minor(2) | tz_offset(4) | sig_figs(4) |
  snaplen(4) | linktype(4), each field little-endian, whatever the header; it is
  handed to the sink in one \<open>Write\<close>, at once; \<open>NewWriter\<close> fails exactly when that
  \<open>Write\<close> returns an error, and then returns that error and no Writer.
\<close>

theorem NewWriter_writes_header:
  "length (spec_file_header h) = 24
   \<and> NewWriter wr h =
       (case sink_Write wr (spec_file_header h) of
          ((n, Some x), wr') \<Rightarrow> Inl (x, wr')
        | ((n, None), wr') \<Rightarrow> Inr \<lparr>writer = wr', wbuf = spec_file_header h\<rparr>)
   \<and> (isl (NewWriter wr h) \<longleftrightarrow> snd (fst (sink_Write wr (spec_file_header h))) \<noteq> None)"
  by (auto simp: NewWriter_conv spec_file_header_length split: prod.splits option.splits)

theorem NewWriter_writes_header_witness:
  "length (spec_file_header (example_FileHeader 0xa1b2c3d4)) = 24
   \<and> spec_file_header (example_FileHeader 0xa1b2c3d4) = example_header_usec
   \<and> NewWriter \<lparr>written = [], faults = []\<rparr> (example_FileHeader 0xa1b2c3d4)
       = Inr \<lparr>writer = \<lparr>written = example_header_usec, faults = []\<rparr>,
              wbuf = example_header_usec\<rparr>
   \<and> NewWriter \<lparr>written = [], faults = [Some (10, IOFailure 0)]\<rparr> (example_FileHeader 0xa1b2c3d4)
       = Inl (IOFailure 0, \<lparr>written = take 10 example_header_usec, faults = []\<rparr>)"
proof -
  have h: "spec_file_header (example_FileHeader 0xa1b2c3d4) = example_header_usec"
    by code_simp
  have w1: "sink_Write \<lparr>written = [], faults = []\<rparr> example_header_usec
              = ((24, None), \<lparr>written = example_header_usec, faults = []\<rparr>)"
    by code_simp
  have w2: "sink_Write \<lparr>written = [], faults = [Some (10, IOFailure 0)]\<rparr> example_header_usec
              = ((10, Some (IOFailure 0)), \<lparr>written = take 10 example_header_usec, faults = []\<rparr>)"
    by code_simp
  show ?thesis
    using NewWriter_writes_header [of "example_FileHeader 0xa1b2c3d4" "\<lparr>written = [], faults = []\<rparr>"]
      NewWriter_writes_header [of "example_FileHeader 0xa1b2c3d4"
        "\<lparr>written = [], faults = [Some (10, IOFailure 0)]\<rparr>"]
    by (simp add: h w1 w2)
qed


section \<open>The bytes a read takes from the stream\<close>

lemma remaining_Nil [simp]: "remaining [] = []"
  by (simp add: remaining_def)

lemma remaining_Cons [simp]: "remaining ((bs, e) # s) = bs @ remaining s"
  by (simp add: remaining_def)

lemma stream_Read_remaining:
  "stream_Read s k = ((chunk, e), s') \<Longrightarrow> remaining s = chunk @ remaining s' \<and> length chunk \<le> k"
  by (cases s) (auto split: if_splits)

lemma read_loop_remaining:
  "read_loop s got k = (got', e, s')
     \<Longrightarrow> \<exists>x. got' = got @ x \<and> remaining s = x @ remaining s' \<and> length x \<le> k
            \<and> (e = None \<longrightarrow> length x = k)"
proof (induction s got k arbitrary: got' e s' rule: read_loop.induct)
  case (1 s got k)
  obtain chunk e1 s1 where rd: "stream_Read s k = ((chunk, e1), s1)"
    by (metis prod.exhaust)
  note rem = stream_Read_remaining [OF rd]
  show ?case
  proof (cases "e1 = None \<and> length chunk \<noteq> k")
    case True
    then have "read_loop s1 (got @ chunk) (k - length chunk) = (got', e, s')"
      using "1.prems" rd by (simp add: read_loop.simps [of s])
    from "1.IH" [OF rd [symmetric] refl True this]
    obtain x where x: "got' = (got @ chunk) @ x" "remaining s1 = x @ remaining s'"
      "length x \<le> k - length chunk" "e = None \<longrightarrow> length x = k - length chunk"
      by blast
    show ?thesis
      using x rem by (intro exI [of _ "chunk @ x"]) auto
  next
    case False
    then have "got' = got @ chunk" "e = e1" "s' = s1"
      using "1.prems" rd by (auto simp: read_loop.simps [of s])
    then show ?thesis
      using rem False by (intro exI [of _ chunk]) auto
  qed
qed

lemma read_remaining:
  assumes "read s data = (e, data', s')"
  shows "\<exists>x. remaining s = x @ remaining s' \<and> length x \<le> length data
            \<and> data' = x @ drop (length x) data \<and> (e = None \<longleftrightarrow> length x = length data)"
proof -
  obtain got e0 s0 where rl: "read_loop s [] (length data) = (got, e0, s0)"
    by (metis prod.exhaust)
  from read_loop_remaining [OF rl] have g: "remaining s = got @ remaining s0"
    "length got \<le> length data" "e0 = None \<longrightarrow> length got = length data"
    by auto
  have "e = (if length data = length got then None else e0)" "data' = got @ drop (length got) data"
    "s' = s0"
    using assms rl by (auto simp: read_def)
  then show ?thesis
    using g by (intro exI [of _ got]) auto
qed


section \<open>Reading a stream that does not fail\<close>

lemma stream_Read_clean:
  "clean s \<Longrightarrow> stream_Read s k = ((chunk, e), s') \<Longrightarrow> clean s' \<and> (e = None \<or> s' = [])"
  by (cases s) (auto simp: clean_def split: if_splits)

lemma read_loop_clean:
  "clean s \<Longrightarrow> read_loop s got k = (got', e, s') \<Longrightarrow> clean s' \<and> (e = None \<or> s' = [])"
proof (induction s got k arbitrary: got' e s' rule: read_loop.induct)
  case (1 s got k)
  obtain chunk e1 s1 where rd: "stream_Read s k = ((chunk, e1), s1)"
    by (metis prod.exhaust)
  note c1 = stream_Read_clean [OF "1.prems"(1) rd]
  show ?case
  proof (cases "e1 = None \<and> length chunk \<noteq> k")
    case True
    then have "read_loop s1 (got @ chunk) (k - length chunk) = (got', e, s')"
      using "1.prems" rd by (simp add: read_loop.simps [of s])
    with "1.IH" [OF rd [symmetric] refl True] c1 show ?thesis
      by blast
  next
    case False
    then have "e = e1" "s' = s1"
      using "1.prems" rd by (auto simp: read_loop.simps [of s])
    then show ?thesis
      using c1 by simp
  qed
qed

lemma read_clean:
  assumes "clean s" and "remaining s = bs @ rest" and "length data = length bs"
  shows "\<exists>s'. read s data = (None, bs, s') \<and> clean s' \<and> remaining s' = rest"
proof -
  obtain e data' s' where rd: "read s data = (e, data', s')"
    by (metis prod.exhaust)
  obtain got e0 s0 where rl: "read_loop s [] (length data) = (got, e0, s0)"
    by (metis prod.exhaust)
  have s0: "s' = s0" and e: "e = (if length data = length got then None else e0)"
    using rd rl by (auto simp: read_def)
  from read_loop_clean [OF assms(1) rl] have cl: "clean s'" "e0 = None \<or> s' = []"
    using s0 by auto
  from read_remaining [OF rd] obtain x where x: "remaining s = x @ remaining s'"
    "length x \<le> length data" "data' = x @ drop (length x) data"
    "e = None \<longleftrightarrow> length x = length data"
    by blast
  have full: "length x = length data"
  proof (cases "e0 = None")
    case True
    then have "e = None" using e by simp
    then show ?thesis using x(4) by simp
  next
    case False
    then have "s' = []" using cl by auto
    then have "x = bs @ rest" using x(1) assms(2) by simp
    then show ?thesis using x(2) assms(3) by simp
  qed
  have app: "x @ remaining s' = bs @ rest"
    using x(1) assms(2) by simp
  have lx: "length x = length bs"
    using full assms(3) by simp
  have both: "x = bs \<and> remaining s' = rest"
    using app append_eq_append_conv [OF disjI1 [OF lx]] by blast
  then have xb: "x = bs" and rest: "remaining s' = rest"
    by blast+
  have "e = None"
    using x(4) full by simp
  moreover have "data' = bs"
    using x(3) xb lx assms(3) by simp
  ultimately have "read s data = (None, bs, s')"
    using rd by simp
  then show ?thesis
    using cl(1) rest by blast
qed




section \<open>Fixed-size payloads\<close>

lemma Writer_Write_conv:
  assumes "length (wbuf w) = 24"
  shows "Writer_Write w pkt =
     (case sink_Write (writer w) (spec_record_header pkt) of ((n, e), wr1) \<Rightarrow>
        if e \<noteq> None then (e, \<lparr>writer = wr1, wbuf = spec_record_header pkt @ drop 16 (wbuf w)\<rparr>)
        else case sink_Write wr1 (Data pkt) of ((n', e'), wr2) \<Rightarrow>
               (e', \<lparr>writer = wr2, wbuf = spec_record_header pkt @ drop 16 (wbuf w)\<rparr>))"
proof -
  have t: "take 16 (PutUint32 (PutUint32 (PutUint32 (PutUint32 (wbuf w) 0 a) 4 b) 8 c) 12 d)
             = le_bytes 4 a @ le_bytes 4 b @ le_bytes 4 c @ le_bytes 4 d" for a b c d
    using assms by (rule record_buffer)
  have d: "PutUint32 (PutUint32 (PutUint32 (PutUint32 (wbuf w) 0 a) 4 b) 8 c) 12 d
             = le_bytes 4 a @ le_bytes 4 b @ le_bytes 4 c @ le_bytes 4 d @ drop 16 (wbuf w)" for a b c d
    using assms by (simp add: PutUint32_conv)
  show ?thesis
    unfolding Writer_Write_def Let_def t unfolding d
    by (simp add: spec_record_header_def split: prod.splits)
qed


lemma sink_Write_no_faults:
  "faults wr = [] \<Longrightarrow> sink_Write wr p = ((length p, None), wr\<lparr>written := written wr @ p\<rparr>)"
  by (simp add: sink_Write_def)



lemma Header_pool_Get [simp]: "Header (snd (pool_Get r c)) = Header r"
  by (simp add: pool_Get_def pool_New_def Let_def split: pool_choice.splits)

lemma pool_Get_length:
  assumes "list_all (\<lambda>pd. length pd = unat (SnapLen (Header r))) (DataPool r)"
  shows "length (fst (pool_Get r c)) = unat (SnapLen (Header r))"
  using assms
  by (auto simp: pool_Get_def pool_New_def NewPacketData_def Let_def list_all_length
      split: pool_choice.splits)





text \<open>
  The pool holds only buffers of \<open>SnapLen\<close> bytes from the start, and keeps doing
  so while \<open>Next\<close> takes buffers out and callers put back the buffers of the
  packets they were given.
\<close>

lemma readUint32_keeps [simp]:
  "DataPool (snd (readUint32 r)) = DataPool r" "Count (snd (readUint32 r)) = Count r"
  "sixteenBytes (snd (readUint32 r)) = sixteenBytes r"
  by (simp_all add: readUint32_def Let_def split: prod.splits)

lemma readInt32_keeps [simp]:
  "DataPool (snd (readInt32 r)) = DataPool r" "Count (snd (readInt32 r)) = Count r"
  "sixteenBytes (snd (readInt32 r)) = sixteenBytes r"
  by (simp_all add: readInt32_def Let_def split: prod.splits)

lemma readUint16_keeps [simp]:
  "DataPool (snd (readUint16 r)) = DataPool r" "Count (snd (readUint16 r)) = Count r"
  "sixteenBytes (snd (readUint16 r)) = sixteenBytes r"
  by (simp_all add: readUint16_def Let_def split: prod.splits)

lemma readHeader_keeps [simp]:
  "DataPool (readHeader r) = DataPool r" "Count (readHeader r) = Count r"
  "sixteenBytes (readHeader r) = sixteenBytes r"
  by (simp_all add: readHeader_alt Let_def)







section \<open>The buffer pool\<close>

lemma Next_Count:
  "Count (snd (Next r c)) =
     (if fst (read (buf r) (sixteenBytes r)) = None
         \<and> (case c of Miss \<Rightarrow> True | Hit i \<Rightarrow> length (DataPool r) \<le> i)
      then Count r + 1 else Count r)"
  by (auto simp: Next_def pool_Get_def pool_New_def Let_def split: prod.splits pool_choice.splits)

lemma pool_Get_Put_Hit: "pool_Get (pool_Put r pd) (Hit 0) = (pd, r)"
  by (simp add: pool_Get_def pool_Put_def)


text \<open>
  C9, as stated: after a buffer has been released to the pool, the next \<open>Next\<close>
  that needs a buffer reuses it, and the allocation counter does not increase. It
  fails when the pool's \<open>Get\<close> ignores what it holds, which sync.Pool is free to
  do: a buffer of the right size is in the pool, and \<open>Next\<close> still runs the
  factory and counts an allocation.
\<close>

theorem Next_after_release_may_allocate:
  "DataPool (pool_Put (example_reader [(example_record, None)]) [7, 7]) = [[7, 7]]
   \<and> Count (pool_Put (example_reader [(example_record, None)]) [7, 7]) = 0
   \<and> Next (pool_Put (example_reader [(example_record, None)]) [7, 7]) Miss
      = (Some example_packet,
         (example_reader [])\<lparr>sixteenBytes := take 16 example_record, DataPool := [[7, 7]],
                             Count := 1\<rparr>)"
  by code_simp

text \<open>
  C9, amended: the pool's factory returns a zero-filled buffer of exactly \<open>SnapLen\<close>
  bytes and adds one to \<open>Count\<close>; a call of \<open>Next\<close> adds one to \<open>Count\<close> exactly
  when it has read the record header and the pool's \<open>Get\<close> falls back on the
  factory, and leaves \<open>Count\<close> alone otherwise. After a buffer has been released,
  a \<open>Get\<close> that takes it from the pool returns that very buffer, and the \<open>Next\<close>
  that makes this \<open>Get\<close> does not increase \<open>Count\<close>; a \<open>Get\<close> that ignores the
  pool runs the factory.
\<close>

theorem pool_factory_and_reuse:
  "pool_New r = (replicate (unat (SnapLen (Header r))) 0, r\<lparr>Count := Count r + 1\<rparr>)
   \<and> Count (snd (Next r c)) =
       (if fst (read (buf r) (sixteenBytes r)) = None
           \<and> (case c of Miss \<Rightarrow> True | Hit i \<Rightarrow> length (DataPool r) \<le> i)
        then Count r + 1 else Count r)
   \<and> pool_Get (pool_Put r pd) (Hit 0) = (pd, r)
   \<and> Count (snd (Next (pool_Put r pd) (Hit 0))) = Count r
   \<and> pool_Get (pool_Put r pd) Miss = pool_New (pool_Put r pd)"
  by (simp add: Next_Count pool_Get_Put_Hit)
    (simp add: pool_New_def pool_Get_def pool_Put_def NewPacketData_def Let_def)

theorem pool_factory_and_reuse_witness:
  "pool_New (example_reader [(example_record, None)])
     = ([0, 0], (example_reader [(example_record, None)])\<lparr>Count := 1\<rparr>)
   \<and> fst (read (buf (example_reader [(example_record, None)]))
            (sixteenBytes (example_reader [(example_record, None)]))) = None
   \<and> Count (snd (Next (example_reader [(example_record, None)]) Miss)) = 1
   \<and> pool_Get (pool_Put (example_reader [(example_record, None)]) [7, 7]) (Hit 0)
       = ([7, 7], example_reader [(example_record, None)])
   \<and> Count (snd (Next (pool_Put (example_reader [(example_record, None)]) [7, 7]) (Hit 0))) = 0"
proof -
  let ?r = "example_reader [(example_record, None)]"
  have rd: "fst (read (buf ?r) (sixteenBytes ?r)) = None"
    by code_simp
  have c0: "Count ?r = 0" and sl: "unat (SnapLen (Header ?r)) = 2"
    by (simp_all add: example_reader_def)
  show ?thesis
    using pool_factory_and_reuse [of ?r Miss "[7, 7]"] rd
    by (simp add: c0 sl numeral_2_eq_2)
qed

section \<open>Decoding what the Writer encoded\<close>

lemma LittleEndian_Uint32_le_bytes: "LittleEndian_Uint32 (le_bytes 4 v) = v"
  unfolding LittleEndian_Uint32_def le_bytes_4
  apply (rule bit_word_eqI)
  subgoal for n
    by (cases "n < 8"; cases "n < 16"; cases "n < 24"; auto simp: bit_simps)
  done

lemma LittleEndian_Uint16_le_bytes: "LittleEndian_Uint16 (le_bytes 2 v) = v"
  unfolding LittleEndian_Uint16_def le_bytes_2
  by (rule bit_word_eqI) (auto simp: bit_simps)

lemma readUint32_feeding:
  assumes "feeding r (le_bytes 4 v @ rest)"
  shows "fst (readUint32 r) = v \<and> feeding (snd (readUint32 r)) rest
           \<and> DataPool (snd (readUint32 r)) = DataPool r \<and> Count (snd (readUint32 r)) = Count r"
proof -
  from assms have "clean (buf r)" "remaining (buf r) = le_bytes 4 v @ rest"
    "length (fourBytes r) = length (le_bytes 4 v)"
    by (simp_all add: feeding_def)
  from read_clean [OF this] obtain s' where
    "read (buf r) (fourBytes r) = (None, le_bytes 4 v, s')" "clean s'" "remaining s' = rest"
    by blast
  then show ?thesis
    using assms
    by (simp add: readUint32_def feeding_def asUint32_def LittleEndian_Uint32_le_bytes)
qed

lemma readInt32_feeding:
  assumes "feeding r (le_bytes 4 v @ rest)"
  shows "fst (readInt32 r) = v \<and> feeding (snd (readInt32 r)) rest
           \<and> DataPool (snd (readInt32 r)) = DataPool r \<and> Count (snd (readInt32 r)) = Count r"
proof -
  from assms have "clean (buf r)" "remaining (buf r) = le_bytes 4 v @ rest"
    "length (fourBytes r) = length (le_bytes 4 v)"
    by (simp_all add: feeding_def)
  from read_clean [OF this] obtain s' where
    "read (buf r) (fourBytes r) = (None, le_bytes 4 v, s')" "clean s'" "remaining s' = rest"
    by blast
  then show ?thesis
    using assms
    by (simp add: readInt32_def feeding_def asUint32_def LittleEndian_Uint32_le_bytes)
qed

lemma readUint16_feeding:
  assumes "feeding r (le_bytes 2 v @ rest)"
  shows "fst (readUint16 r) = v \<and> feeding (snd (readUint16 r)) rest
           \<and> DataPool (snd (readUint16 r)) = DataPool r \<and> Count (snd (readUint16 r)) = Count r"
proof -
  from assms have "clean (buf r)" "remaining (buf r) = le_bytes 2 v @ rest"
    "length (twoBytes r) = length (le_bytes 2 v)"
    by (simp_all add: feeding_def)
  from read_clean [OF this] obtain s' where
    "read (buf r) (twoBytes r) = (None, le_bytes 2 v, s')" "clean s'" "remaining s' = rest"
    by blast
  then show ?thesis
    using assms
    by (simp add: readUint16_def feeding_def asUint16_def LittleEndian_Uint16_le_bytes)
qed

lemma readHeader_feeding:
  assumes "feeding r0 (le_bytes 2 a @ le_bytes 2 b @ le_bytes 4 c @ le_bytes 4 d
                        @ le_bytes 4 e @ le_bytes 4 f @ rest)"
  shows "Header (readHeader r0)
           = \<lparr>MagicNumber = 0xa1b23c4d, VersionMajor = a, VersionMinor = b, TimeZone = c,
              SigFigs = d, SnapLen = e, LinkType = f\<rparr>
         \<and> feeding (readHeader r0) rest \<and> DataPool (readHeader r0) = DataPool r0"
proof -
  define r1 where "r1 = snd (readUint16 r0)"
  define r2 where "r2 = snd (readUint16 r1)"
  define r3 where "r3 = snd (readInt32 r2)"
  define r4 where "r4 = snd (readUint32 r3)"
  define r5 where "r5 = snd (readUint32 r4)"
  define r6 where "r6 = snd (readUint32 r5)"
  note s1 = readUint16_feeding [OF assms, folded r1_def]
  note s2 = readUint16_feeding [OF s1 [THEN conjunct2, THEN conjunct1], folded r2_def]
  note s3 = readInt32_feeding [OF s2 [THEN conjunct2, THEN conjunct1], folded r3_def]
  note s4 = readUint32_feeding [OF s3 [THEN conjunct2, THEN conjunct1], folded r4_def]
  note s5 = readUint32_feeding [OF s4 [THEN conjunct2, THEN conjunct1], folded r5_def]
  note s6 = readUint32_feeding [OF s5 [THEN conjunct2, THEN conjunct1], folded r6_def]
  have "readHeader r0 = r6\<lparr>Header := \<lparr>MagicNumber = 0xa1b23c4d, VersionMajor = a,
          VersionMinor = b, TimeZone = c, SigFigs = d, SnapLen = e, LinkType = f\<rparr>\<rparr>"
    using s1 s2 s3 s4 s5 s6
    by (simp add: readHeader_alt Let_def r1_def r2_def r3_def r4_def r5_def r6_def)
  then show ?thesis
    using s1 s2 s3 s4 s5 s6 by (simp add: feeding_def)
qed

lemma NewReader_feeding:
  assumes "clean s" and "remaining s = spec_file_header h @ rest"
    and "MagicNumber h = 0xa1b2c3d4 \<or> MagicNumber h = 0xa1b23c4d"
  shows "\<exists>r. NewReader s = Inr r \<and> Header r = h\<lparr>MagicNumber := 0xa1b23c4d\<rparr>
           \<and> feeding r rest \<and> DataPool r = []"
proof -
  define r0 where "r0 = \<lparr>flip = False, buf = s, err = None, fourBytes = replicate 4 0,
               twoBytes = replicate 2 0, sixteenBytes = replicate 16 0,
               DataPool = [], Header = emptyHeader, Count = 0\<rparr>"
  let ?tail = "le_bytes 2 (VersionMajor h) @ le_bytes 2 (VersionMinor h)
       @ le_bytes 4 (TimeZone h) @ le_bytes 4 (SigFigs h) @ le_bytes 4 (SnapLen h)
       @ le_bytes 4 (LinkType h) @ rest"
  have "feeding r0 (le_bytes 4 (MagicNumber h) @ ?tail)"
    using assms(1,2) by (simp add: feeding_def r0_def spec_file_header_def)
  from readUint32_feeding [OF this]
  have m: "fst (readUint32 r0) = MagicNumber h" and f1: "feeding (snd (readUint32 r0)) ?tail"
    and p1: "DataPool (snd (readUint32 r0)) = DataPool r0"
    by simp_all
  define r1 where "r1 = (snd (readUint32 r0))\<lparr>flip := False\<rparr>"
  have "feeding r1 ?tail" and p2: "DataPool r1 = []"
    using f1 p1 by (simp_all add: feeding_def r1_def r0_def)
  from readHeader_feeding [OF this(1)]
  have hd: "Header (readHeader r1) = h\<lparr>MagicNumber := 0xa1b23c4d\<rparr>"
    and fd: "feeding (readHeader r1) rest" and pl: "DataPool (readHeader r1) = []"
    using p2 by simp_all
  have "NewReader s = Inr (readHeader r1)"
    using m assms(3) unfolding NewReader_def Let_def r0_def [symmetric] r1_def
    by (auto simp: split_beta)
  then show ?thesis
    using hd fd pl by blast
qed

lemma time_Unix_of_fields:
  assumes "0 \<le> a" "a < 2 ^ 32" "0 \<le> b" "b < 1000000000"
  shows "time_Unix (uint (word_of_int a :: uint32)) (uint (word_of_int b :: uint32))
           = \<lparr>Unix = a, Nanosecond = b\<rparr>"
proof -
  have "uint (word_of_int a :: uint32) = a"
    using assms(1,2) by (simp add: uint_word_of_int take_bit_int_eq_self)
  moreover have "uint (word_of_int b :: uint32) = b"
    using assms(3,4) by (simp add: uint_word_of_int take_bit_int_eq_self)
  ultimately show ?thesis
    using assms(3,4) by (simp add: time_Unix_def)
qed

lemma pool_Get_fields:
  "flip (snd (pool_Get r c)) = flip r \<and> fourBytes (snd (pool_Get r c)) = fourBytes r
     \<and> twoBytes (snd (pool_Get r c)) = twoBytes r
     \<and> sixteenBytes (snd (pool_Get r c)) = sixteenBytes r
     \<and> set (DataPool (snd (pool_Get r c))) \<subseteq> set (DataPool r)"
  by (auto simp: pool_Get_def pool_New_def Let_def split: pool_choice.splits
      dest: in_set_takeD in_set_dropD)

lemma Next_feeding:
  assumes fd: "feeding r (record_bytes p @ rest)"
    and inv: "list_all (\<lambda>pd. length pd = unat (SnapLen (Header r))) (DataPool r)"
    and rng: "storable (Header r) p"
  shows "fst (Next r c) = Some p \<and> feeding (snd (Next r c)) rest
           \<and> Header (snd (Next r c)) = Header r
           \<and> list_all (\<lambda>pd. length pd = unat (SnapLen (Header r))) (DataPool (snd (Next r c)))"
proof -
  from fd have "clean (buf r)"
    "remaining (buf r) = spec_record_header p @ (Data p @ rest)"
    "length (sixteenBytes r) = length (spec_record_header p)"
    by (simp_all add: feeding_def record_bytes_def)
  from read_clean [OF this] obtain s1 where
    r1: "read (buf r) (sixteenBytes r) = (None, spec_record_header p, s1)"
    and c1: "clean s1" and m1: "remaining s1 = Data p @ rest"
    by blast
  let ?r1 = "r\<lparr>buf := s1, sixteenBytes := spec_record_header p, err := None\<rparr>"
  obtain pd r2 where pg: "pool_Get ?r1 c = (pd, r2)"
    by (metis prod.exhaust)
  have len: "length pd = length (Data p)"
    using pool_Get_length [of ?r1 c] inv pg rng by (simp add: storable_def)
  have b2: "buf r2 = s1"
    using buf_pool_Get [of ?r1 c] pg by simp
  have h2: "Header r2 = Header r"
    using Header_pool_Get [of ?r1 c] pg by simp
  from pool_Get_fields [of ?r1 c] pg
  have f2: "\<not> flip r2" "length (fourBytes r2) = 4" "length (twoBytes r2) = 2"
    "length (sixteenBytes r2) = 16" and sub: "set (DataPool r2) \<subseteq> set (DataPool r)"
    using fd by (simp_all add: feeding_def)
  from read_clean [OF c1 m1 len] obtain s2 where
    r2: "read s1 pd = (None, Data p, s2)" and c2: "clean s2" and m2: "remaining s2 = rest"
    by blast
  have tm: "time_Unix (uint (word_of_int (Unix (Time p)) :: uint32))
              (uint (word_of_int (Nanosecond (Time p)) :: uint32)) = Time p"
    using rng by (simp add: storable_def time_Unix_of_fields)
  have "Next r c = (Some p, r2\<lparr>buf := s2, err := None\<rparr>)"
    using r1 pg r2 b2 fd tm
    by (simp add: Next_def Let_def feeding_def spec_record_header_def asUint32_def
        LittleEndian_Uint32_le_bytes)
  then show ?thesis
    using f2 c2 m2 h2 sub inv by (auto simp: feeding_def list_all_iff)
qed

lemma next_all_feeding:
  assumes "list_all (storable (Header r)) pkts" and "length cs = length pkts"
    and "feeding r (concat (map record_bytes pkts) @ rest)"
    and "list_all (\<lambda>pd. length pd = unat (SnapLen (Header r))) (DataPool r)"
  shows "fst (next_all r cs) = map Some pkts \<and> feeding (snd (next_all r cs)) rest"
  using assms
proof (induction pkts arbitrary: r cs)
  case Nil
  then show ?case by simp
next
  case (Cons p ps)
  then obtain c cs' where cs: "cs = c # cs'" and len: "length cs' = length ps"
    by (cases cs) auto
  have fd: "feeding r (record_bytes p @ (concat (map record_bytes ps) @ rest))"
    using Cons.prems(3) by simp
  have rng: "storable (Header r) p"
    using Cons.prems(1) by simp
  note nx = Next_feeding [OF fd Cons.prems(4) rng, of c]
  let ?r' = "snd (Next r c)"
  have "list_all (storable (Header ?r')) ps"
    using nx Cons.prems(1) by simp
  moreover have "list_all (\<lambda>pd. length pd = unat (SnapLen (Header ?r'))) (DataPool ?r')"
    using nx by simp
  ultimately have ih: "fst (next_all ?r' cs') = map Some ps \<and> feeding (snd (next_all ?r' cs')) rest"
    using Cons.IH [of ?r' cs'] len nx by blast
  show ?case
    using nx ih by (simp add: cs split_beta)
qed


section \<open>The file a Writer produces\<close>

lemma write_all_no_faults:
  assumes "faults (writer w) = []" and "length (wbuf w) = 24"
  shows "fst (write_all w pkts) = None
           \<and> written (writer (snd (write_all w pkts)))
               = written (writer w) @ concat (map record_bytes pkts)"
  using assms
proof (induction pkts arbitrary: w)
  case Nil
  then show ?case by simp
next
  case (Cons p ps)
  let ?w' = "\<lparr>writer = (writer w)\<lparr>written := written (writer w) @ spec_record_header p @ Data p\<rparr>,
              wbuf = spec_record_header p @ drop 16 (wbuf w)\<rparr>"
  have step: "Writer_Write w p = (None, ?w')"
    using Cons.prems by (simp add: Writer_Write_conv sink_Write_no_faults)
  have "faults (writer ?w') = []" "length (wbuf ?w') = 24"
    using Cons.prems by simp_all
  from Cons.IH [OF this] show ?case
    by (simp add: step record_bytes_def)
qed

lemma pcap_file_layout:
  "pcap_file h pkts = spec_file_header h @ concat (map record_bytes pkts)"
proof -
  let ?w = "\<lparr>writer = \<lparr>written = spec_file_header h, faults = []\<rparr>, wbuf = spec_file_header h\<rparr>"
  have "NewWriter \<lparr>written = [], faults = []\<rparr> h = Inr ?w"
    by (simp add: NewWriter_conv sink_Write_no_faults)
  moreover have "written (writer (snd (write_all ?w pkts)))
                   = spec_file_header h @ concat (map record_bytes pkts)"
    using write_all_no_faults [of ?w pkts] by (simp add: spec_file_header_length)
  ultimately show ?thesis
    by (simp add: pcap_file_def)
qed


section \<open>Round trip\<close>

text \<open>
  C1, as stated: for every header and all records whose payload buffers have
  \<open>SnapLen\<close> bytes, reading back what the Writer wrote gives the same header, field
  by field, and the same records, for native and for swapped magic values. It fails
  in three ways. With the native microsecond magic 0xa1b2c3d4 the Reader's header
  has the magic 0xa1b23c4d. With the swapped magic 0xd4c3b2a1 the Writer still
  writes little-endian and the Reader decodes big-endian: version 2.4 comes back as
  512.1024, and the snapshot length 2 as 33554432. And a timestamp one second
  before the epoch comes back as second 4294967295, since the file keeps the low
  32 bits of the seconds.
\<close>

theorem round_trip_fails_by_magic_and_time:
  "NewReader [(pcap_file (example_FileHeader 0xa1b2c3d4) [], None)] = Inr (example_reader [])
   \<and> Header (example_reader []) \<noteq> example_FileHeader 0xa1b2c3d4
   \<and> NewReader [(pcap_file (example_FileHeader 0xd4c3b2a1) [], None)]
       = Inr \<lparr>flip = True, buf = [], err = None, fourBytes = [1, 0, 0, 0], twoBytes = [4, 0],
              sixteenBytes = replicate 16 0, DataPool = [],
              Header = \<lparr>MagicNumber = 0xa1b23c4d, VersionMajor = 0x0200,
                        VersionMinor = 0x0400, TimeZone = 0, SigFigs = 0,
                        SnapLen = 0x02000000, LinkType = 0x01000000\<rparr>,
              Count = 0\<rparr>
   \<and> NewReader [(pcap_file (example_FileHeader 0xa1b23c4d)
                     [example_packet\<lparr>Time := \<lparr>Unix = - 1, Nanosecond = 0\<rparr>\<rparr>], None)]
       = Inr (example_reader
                [([0xff, 0xff, 0xff, 0xff, 0, 0, 0, 0, 1, 0, 0, 0, 9, 0, 0, 0, 0xaa, 0xbb], None)])
   \<and> fst (Next (example_reader
                [([0xff, 0xff, 0xff, 0xff, 0, 0, 0, 0, 1, 0, 0, 0, 9, 0, 0, 0, 0xaa, 0xbb], None)])
             Miss)
       = Some (example_packet\<lparr>Time := \<lparr>Unix = 4294967295, Nanosecond = 0\<rparr>\<rparr>)"
  by code_simp

text \<open>
  C1, amended: for every header \<open>h\<close> whose magic is a native one (0xa1b2c3d4 or
  0xa1b23c4d) and every list of \<open>N\<close> records whose payload buffers have \<open>SnapLen\<close>
  bytes and whose timestamps have their seconds in \<open>[0, 2^32)\<close>: when the bytes
  that \<open>NewWriter\<close> and \<open>Write\<close> hand to a sink that does not fail are read back
  from a stream that does not fail, in whatever pieces it delivers them,
  \<open>NewReader\<close> returns a Reader whose header equals \<open>h\<close> in every field but the
  magic, which is 0xa1b23c4d, and \<open>N\<close> calls of \<open>Next\<close> return the \<open>N\<close> records
  in order, each with the timestamp, captured length, original length and payload
  that was written, whatever the pool does.
\<close>

theorem write_then_read_round_trip:
  assumes "MagicNumber h = 0xa1b2c3d4 \<or> MagicNumber h = 0xa1b23c4d"
    and "list_all (storable h) pkts"
    and "clean s" and "remaining s = pcap_file h pkts"
    and "length cs = length pkts"
  shows "\<exists>r. NewReader s = Inr r \<and> Header r = h\<lparr>MagicNumber := 0xa1b23c4d\<rparr>
           \<and> fst (next_all r cs) = map Some pkts"
proof -
  have "remaining s = spec_file_header h @ (concat (map record_bytes pkts) @ [])"
    using assms(4) by (simp add: pcap_file_layout)
  from NewReader_feeding [OF assms(3) this assms(1)] obtain r where
    r: "NewReader s = Inr r" "Header r = h\<lparr>MagicNumber := 0xa1b23c4d\<rparr>"
      "feeding r (concat (map record_bytes pkts) @ [])" "DataPool r = []"
    by blast
  have "storable (Header r) = storable h"
    using r(2) by (simp add: storable_def fun_eq_iff)
  then have "list_all (storable (Header r)) pkts"
    using assms(2) by simp
  moreover have "list_all (\<lambda>pd. length pd = unat (SnapLen (Header r))) (DataPool r)"
    using r(4) by simp
  ultimately have "fst (next_all r cs) = map Some pkts"
    using next_all_feeding [of r pkts cs "[]"] assms(5) r(3) by blast
  then show ?thesis
    using r by blast
qed

theorem write_then_read_round_trip_witness:
  "(MagicNumber (example_FileHeader 0xa1b2c3d4) = 0xa1b2c3d4
      \<or> MagicNumber (example_FileHeader 0xa1b2c3d4) = 0xa1b23c4d)
   \<and> list_all (storable (example_FileHeader 0xa1b2c3d4))
        [example_packet, example_packet\<lparr>Caplen := 2, Data := [1, 2]\<rparr>]
   \<and> clean [(take 5 (pcap_file (example_FileHeader 0xa1b2c3d4)
                        [example_packet, example_packet\<lparr>Caplen := 2, Data := [1, 2]\<rparr>]), None),
             ([], None),
             (drop 5 (pcap_file (example_FileHeader 0xa1b2c3d4)
                        [example_packet, example_packet\<lparr>Caplen := 2, Data := [1, 2]\<rparr>]), None)]
   \<and> (\<exists>r. NewReader
              [(take 5 (pcap_file (example_FileHeader 0xa1b2c3d4)
                        [example_packet, example_packet\<lparr>Caplen := 2, Data := [1, 2]\<rparr>]), None),
               ([], None),
               (drop 5 (pcap_file (example_FileHeader 0xa1b2c3d4)
                        [example_packet, example_packet\<lparr>Caplen := 2, Data := [1, 2]\<rparr>]), None)]
              = Inr r
            \<and> Header r = example_FileHeader 0xa1b23c4d
            \<and> fst (next_all r [Miss, Hit 0])
                = [Some example_packet, Some (example_packet\<lparr>Caplen := 2, Data := [1, 2]\<rparr>)])"
proof -
  let ?h = "example_FileHeader 0xa1b2c3d4"
  let ?pkts = "[example_packet, example_packet\<lparr>Caplen := 2, Data := [1, 2]\<rparr>]"
  let ?s = "[(take 5 (pcap_file ?h ?pkts), None), ([], None), (drop 5 (pcap_file ?h ?pkts), None)]"
  have m: "MagicNumber ?h = 0xa1b2c3d4 \<or> MagicNumber ?h = 0xa1b23c4d"
    by (simp add: example_FileHeader_def)
  have p: "list_all (storable ?h) ?pkts"
    by (simp add: storable_def example_FileHeader_def example_packet_def)
  have c: "clean ?s"
    by (simp add: clean_def)
  have r: "remaining ?s = pcap_file ?h ?pkts"
    by (simp add: remaining_def)
  have l: "length [Miss, Hit 0] = length ?pkts"
    by simp
  have hh: "?h\<lparr>MagicNumber := 0xa1b23c4d\<rparr> = example_FileHeader 0xa1b23c4d"
    by (simp add: example_FileHeader_def)
  from write_then_read_round_trip [OF m p c r l]
  have "\<exists>r. NewReader ?s = Inr r \<and> Header r = example_FileHeader 0xa1b23c4d
            \<and> fst (next_all r [Miss, Hit 0])
                = [Some example_packet, Some (example_packet\<lparr>Caplen := 2, Data := [1, 2]\<rparr>)]"
    unfolding hh by simp
  with m p c show ?thesis
    by blast
qed

end
